theory Spec2Isabelle
  imports Complex_Main "HOL-Library.Word"
begin

section \<open>Data model of \<open>src/pages/Index.tsx\<close>\<close>

text \<open>
  The component \<open>Index\<close> keeps its state in React hooks. A handler is a closure of the
  render that created it: it reads the cells of that render, and the setters it calls write
  the cells the component holds when the handler runs. A handler is therefore modelled as
  a function of two states, the render it belongs to and the current state, and returns
  the current state as written.
  JavaScript numbers are modelled exactly: times (milliseconds of \<open>Date.now()\<close>) and
  identifiers as \<open>int\<close>, counters as \<open>nat\<close> (they start at 0 and are only incremented or
  reset), percentages and pixel fractions as \<open>real\<close>. Strings are sequences of UTF-16
  code units. The field \<open>id\<close> of an entry is named \<open>entry_id\<close> here, and the outcomes
  \<open>'alpha'\<close> and \<open>'omega'\<close> are the constructors \<open>Alpha\<close> and \<open>Omega\<close>.
\<close>

datatype Result = Alpha | Omega

record HistoryEntry =
  entry_id :: int
  result :: Result
  timestamp :: int

type_synonym jsstring = "16 word list"

record PredictionMethod =
  name :: jsstring
  predict :: "HistoryEntry list \<Rightarrow> Result"
  accuracy :: real
  predictions :: nat
  correct :: nat
  lastPrediction :: "Result option"

datatype CaptureArea = CaptureArea (area_x: real) (area_y: real) (width: real) (height: real)

datatype MediaStream = MediaStream nat

text \<open>The notifications raised through \<open>toast\<close>, by the call site that raises them.\<close>

datatype Toast =
    ToastCaptureActive
  | ToastCaptureError
  | ToastMonitoringStarted
  | ToastMonitoringStopped
  | ToastResultAdded Result

datatype error = TypeError

section \<open>The four prediction strategies\<close>

text \<open>\<open>hist.slice(-n)\<close>: the last \<open>n\<close> elements, all of them when there are fewer.\<close>

definition slice_last :: "nat \<Rightarrow> 'a list \<Rightarrow> 'a list" where
  "slice_last n xs = drop (length xs - n) xs"

text \<open>\<open>methods[0].predict\<close>\<close>

definition predict_frequency :: "HistoryEntry list \<Rightarrow> Result" where
  "predict_frequency hist =
     (let alphaCount = length (filter (\<lambda>h. result h = Alpha) hist);
          omegaCount = length (filter (\<lambda>h. result h = Omega) hist)
      in if alphaCount > omegaCount then Alpha else Omega)"

text \<open>\<open>methods[1].predict\<close>\<close>

definition predict_last5 :: "HistoryEntry list \<Rightarrow> Result" where
  "predict_last5 hist =
     (let last5 = slice_last 5 hist;
          alphaCount = length (filter (\<lambda>h. result h = Alpha) last5)
      in if alphaCount > 2 then Omega else Alpha)"

text \<open>\<open>methods[2].predict\<close>\<close>

definition predict_pattern :: "HistoryEntry list \<Rightarrow> Result" where
  "predict_pattern hist =
     (if length hist < 3 then Alpha
      else
        let last3 = map result (slice_last 3 hist)
        in if list_all (\<lambda>r. r = Alpha) last3 then Omega
           else if list_all (\<lambda>r. r = Omega) last3 then Alpha
           else if last3 ! (length last3 - 1) = Alpha then Omega else Alpha)"

text \<open>\<open>methods[3].predict\<close>: the four transition counters and the loop that fills them.\<close>

record Transitions =
  alphaAlpha :: nat
  alphaOmega :: nat
  omegaAlpha :: nat
  omegaOmega :: nat

definition count_transition :: "Result \<Rightarrow> Result \<Rightarrow> Transitions \<Rightarrow> Transitions" where
  "count_transition current next t =
     (let t1 = (if current = Alpha \<and> next = Alpha then t\<lparr>alphaAlpha := alphaAlpha t + 1\<rparr> else t);
          t2 = (if current = Alpha \<and> next = Omega then t1\<lparr>alphaOmega := alphaOmega t1 + 1\<rparr> else t1);
          t3 = (if current = Omega \<and> next = Alpha then t2\<lparr>omegaAlpha := omegaAlpha t2 + 1\<rparr> else t2)
      in if current = Omega \<and> next = Omega then t3\<lparr>omegaOmega := omegaOmega t3 + 1\<rparr> else t3)"

function transitions_loop :: "HistoryEntry list \<Rightarrow> nat \<Rightarrow> Transitions \<Rightarrow> Transitions" where
  "transitions_loop hist i t =
     (if i + 1 < length hist
      then transitions_loop hist (i + 1)
             (count_transition (result (hist ! i)) (result (hist ! (i + 1))) t)
      else t)"
  by pat_completeness auto
termination
  by (relation "measure (\<lambda>(hist, i, t). length hist - i)") auto

declare transitions_loop.simps [simp del]

definition predict_probability :: "HistoryEntry list \<Rightarrow> Result" where
  "predict_probability hist =
     (if length hist < 2 then Alpha
      else
        let transitions =
              transitions_loop hist 0
                \<lparr>alphaAlpha = 0, alphaOmega = 0, omegaAlpha = 0, omegaOmega = 0\<rparr>;
            last_result = result (hist ! (length hist - 1))
        in if last_result = Alpha
           then (if alphaOmega transitions > alphaAlpha transitions then Omega else Alpha)
           else (if omegaAlpha transitions > omegaOmega transitions then Alpha else Omega))"

section \<open>Component state\<close>

text \<open>
  The \<open>useState\<close> and \<open>useRef\<close> cells of the component. \<open>stoppedStreams\<close> logs the streams
  whose tracks \<open>stopMonitoring\<close> has stopped and \<open>toasts\<close> the notifications raised so far;
  \<open>lastDetected\<close> keeps the clock reading in place of its formatted time string.
\<close>

record State =
  history :: "HistoryEntry list"
  currentPrediction :: "Result option"
  bestMethod :: jsstring
  isCapturing :: bool
  captureArea :: "CaptureArea option"
  isMonitoring :: bool
  showSettings :: bool
  sensitivity :: real
  lastDetected :: "(Result \<times> int) option"
  streamRef :: "MediaStream option"
  stoppedStreams :: "MediaStream list"
  methods :: "PredictionMethod list"
  toasts :: "Toast list"

text \<open>The method names, as UTF-16 code units (the source writes them in Cyrillic).\<close>

definition name_frequency :: jsstring where
  "name_frequency = [0x0427, 0x0430, 0x0441, 0x0442, 0x043E, 0x0442, 0x043D, 0x044B, 0x0439,
     0x0020, 0x0430, 0x043D, 0x0430, 0x043B, 0x0438, 0x0437]"

definition name_last5 :: jsstring where
  "name_last5 = [0x041F, 0x043E, 0x0441, 0x043B, 0x0435, 0x0434, 0x043D, 0x0438, 0x0435, 0x0020,
     0x0035, 0x0020, 0x0437, 0x043D, 0x0430, 0x0447, 0x0435, 0x043D, 0x0438, 0x0439]"

definition name_pattern :: jsstring where
  "name_pattern = [0x041F, 0x0430, 0x0442, 0x0442, 0x0435, 0x0440, 0x043D, 0x002D, 0x0430,
     0x043D, 0x0430, 0x043B, 0x0438, 0x0437]"

definition name_probability :: jsstring where
  "name_probability = [0x0412, 0x0435, 0x0440, 0x043E, 0x044F, 0x0442, 0x043D, 0x043E, 0x0441,
     0x0442, 0x043D, 0x0430, 0x044F, 0x0020, 0x043C, 0x043E, 0x0434, 0x0435, 0x043B, 0x044C]"

definition newMethod :: "jsstring \<Rightarrow> (HistoryEntry list \<Rightarrow> Result) \<Rightarrow> PredictionMethod" where
  "newMethod n p =
     \<lparr>name = n, predict = p, accuracy = 0, predictions = 0, correct = 0, lastPrediction = None\<rparr>"

definition initialMethods :: "PredictionMethod list" where
  "initialMethods =
     [newMethod name_frequency predict_frequency,
      newMethod name_last5 predict_last5,
      newMethod name_pattern predict_pattern,
      newMethod name_probability predict_probability]"

definition initialState :: State where
  "initialState =
     \<lparr>history = [], currentPrediction = None, bestMethod = [], isCapturing = False,
      captureArea = None, isMonitoring = False, showSettings = False, sensitivity = 30,
      lastDetected = None, streamRef = None, stoppedStreams = [],
      methods = initialMethods, toasts = []\<rparr>"

section \<open>Prediction and best-method selection\<close>

text \<open>
  \<open>updatedMethods.reduce((best, current) => current.accuracy > best.accuracy ? current : best)\<close>:
  a left-to-right reduction with no initial value, which throws on an empty array.
\<close>

definition bestMethodObj :: "PredictionMethod list \<Rightarrow> error + PredictionMethod" where
  "bestMethodObj ms =
     (case ms of
        [] \<Rightarrow> Inl TypeError
      | m # rest \<Rightarrow>
          Inr (foldl (\<lambda>best current. if accuracy current > accuracy best then current else best)
                 m rest))"

definition makePrediction :: "State \<Rightarrow> error + State" where
  "makePrediction s =
     (let updatedMethods =
            map (\<lambda>method. method\<lparr>lastPrediction := Some (predict method (history s))\<rparr>) (methods s)
      in case bestMethodObj updatedMethods of
           Inl e \<Rightarrow> Inl e
         | Inr best \<Rightarrow>
             Inr (s\<lparr>currentPrediction := lastPrediction best,
                    bestMethod := name best,
                    methods := updatedMethods\<rparr>))"

text \<open>The effect on \<open>[history]\<close>, run after every render in which \<open>history\<close> was set.\<close>

definition historyEffect :: "State \<Rightarrow> error + State" where
  "historyEffect s = (if length (history s) > 0 then makePrediction s else Inr s)"

section \<open>Recording and clearing outcomes\<close>

text \<open>The body of the \<open>methods.map\<close> in \<open>addResult\<close>.\<close>

definition scoreMethod :: "HistoryEntry list \<Rightarrow> Result \<Rightarrow> PredictionMethod \<Rightarrow> PredictionMethod" where
  "scoreMethod hist res method =
     (let prediction = predict method hist;
          isCorrect = (prediction = res)
      in method\<lparr>predictions := predictions method + 1,
                correct := correct method + (if isCorrect then 1 else 0),
                accuracy :=
                  real (correct method + (if isCorrect then 1 else 0))
                    / real (predictions method + 1) * 100\<rparr>)"

text \<open>
  \<open>addResult\<close> reads \<open>history\<close>, \<open>currentPrediction\<close> and \<open>methods\<close> from its render and
  the clock three times: in the debounce guard, for the identifier and for the timestamp.
  \<open>setMethods\<close>, \<open>setHistory\<close> and the toast act on the current state. \<open>None\<close> is the early
  return of the guard, where nothing is set.
\<close>

definition addResult ::
  "State \<Rightarrow> State \<Rightarrow> Result \<Rightarrow> int \<Rightarrow> int \<Rightarrow> int \<Rightarrow> State option" where
  "addResult render cur res now_guard now_id now_ts =
     (if history render \<noteq> [] \<and> now_guard - timestamp (last (history render)) < 5000
      then None
      else
        let newEntry = \<lparr>entry_id = now_id, result = res, timestamp = now_ts\<rparr>;
            cur1 = (if currentPrediction render \<noteq> None
                    then cur\<lparr>methods := map (scoreMethod (history render) res) (methods render)\<rparr>
                    else cur)
        in Some (cur1\<lparr>history := history render @ [newEntry],
                      toasts := toasts cur1 @ [ToastResultAdded res]\<rparr>))"

definition clearHistory :: "State \<Rightarrow> State" where
  "clearHistory s =
     s\<lparr>history := [],
       currentPrediction := None,
       bestMethod := [],
       methods := map (\<lambda>m. m\<lparr>accuracy := 0, predictions := 0, correct := 0\<rparr>) (methods s)\<rparr>"

text \<open>
  The exposed operations, as the buttons invoke them: the handler of the current render
  followed by the effect of the render it causes. A debounced \<open>addResult\<close> sets nothing, so
  no render and no effect follow it.
\<close>

definition addOutcome :: "State \<Rightarrow> Result \<Rightarrow> int \<Rightarrow> int \<Rightarrow> int \<Rightarrow> error + State" where
  "addOutcome s res now_guard now_id now_ts =
     (case addResult s s res now_guard now_id now_ts of
        None \<Rightarrow> Inr s
      | Some s' \<Rightarrow> historyEffect s')"

definition clearAll :: "State \<Rightarrow> error + State" where
  "clearAll s = historyEffect (clearHistory s)"

section \<open>Region classification and the sampling tick\<close>

text \<open>
  An \<open>ImageData\<close> holds four bytes (red, green, blue, alpha) per pixel; the loop of
  \<open>analyzeColorDominance\<close> steps through \<open>data\<close> by four, so it visits every pixel once and
  \<open>data.length / 4\<close> is the number of pixels.
\<close>

datatype Pixel = Pixel (red: "8 word") (green: "8 word") (blue: "8 word") (opacity: "8 word")

datatype Color = Blue | Purple

definition matches_color :: "Color \<Rightarrow> Pixel \<Rightarrow> bool" where
  "matches_color color p =
     (let r = uint (red p); g = uint (green p); b = uint (blue p)
      in case color of
           Blue \<Rightarrow> b > 180 \<and> g > 200 \<and> r < 150 \<and> g - r > 50 \<and> b - r > 30
         | Purple \<Rightarrow> r > 120 \<and> b > 120 \<and> g < 100 \<and> \<bar>r - b\<bar> < 60 \<and> r > g \<and> b > g)"

fun matching_loop :: "Color \<Rightarrow> Pixel list \<Rightarrow> nat \<Rightarrow> nat" where
  "matching_loop color [] matchingPixels = matchingPixels"
| "matching_loop color (p # ps) matchingPixels =
     matching_loop color ps (if matches_color color p then matchingPixels + 1 else matchingPixels)"

text \<open>
  The result is a JavaScript number; \<open>None\<close> stands for \<open>NaN\<close>, the value of \<open>0 / 0\<close> on an
  image with no pixel. Every comparison with \<open>NaN\<close> is false.
\<close>

definition analyzeColorDominance :: "Pixel list \<Rightarrow> Color \<Rightarrow> real option" where
  "analyzeColorDominance imageData color =
     (let matchingPixels = matching_loop color imageData 0
      in if length imageData = 0 then None
         else Some (real matchingPixels / real (length imageData)))"

definition js_gt :: "real option \<Rightarrow> real option \<Rightarrow> bool" where
  "js_gt a b = (case (a, b) of (Some x, Some y) \<Rightarrow> x > y | _ \<Rightarrow> False)"

text \<open>The \<open>if\<close> / \<open>else if\<close> chain of \<open>analyzeScreen\<close>: the outcome detected, if any.\<close>

definition detect :: "real option \<Rightarrow> real option \<Rightarrow> real option \<Rightarrow> Result option" where
  "detect leftBlue rightPurple threshold =
     (if js_gt leftBlue rightPurple \<and> js_gt leftBlue threshold then Some Alpha
      else if js_gt rightPurple leftBlue \<and> js_gt rightPurple threshold then Some Omega
      else None)"

text \<open>
  One run of \<open>analyzeScreen\<close>. It reads \<open>captureArea\<close> and \<open>sensitivity\<close> from its render and
  calls the \<open>addResult\<close> of the same render; \<open>setLastDetected\<close> writes the current state.
  \<open>frame\<close> is the pair of half images read from the canvas, \<open>None\<close> when the video element,
  the canvas or its context is missing. \<open>now_det\<close> is the clock reading stored in
  \<open>lastDetected\<close>; the other three readings are those of \<open>addResult\<close>.
\<close>

definition analyzeScreen ::
  "State \<Rightarrow> State \<Rightarrow> (Pixel list \<times> Pixel list) option \<Rightarrow> int \<Rightarrow> int \<Rightarrow> int \<Rightarrow> int
     \<Rightarrow> error + State" where
  "analyzeScreen render cur frame now_det now_guard now_id now_ts =
     (case (frame, captureArea render) of
        (Some (leftHalf, rightHalf), Some area) \<Rightarrow>
          (let leftBlue = analyzeColorDominance leftHalf Blue;
               rightPurple = analyzeColorDominance rightHalf Purple;
               threshold = sensitivity render / 100
           in case detect leftBlue rightPurple (Some threshold) of
                Some res \<Rightarrow>
                  (let cur1 = cur\<lparr>lastDetected := Some (res, now_det)\<rparr>
                   in case addResult render cur1 res now_guard now_id now_ts of
                        None \<Rightarrow> Inr cur1
                      | Some cur2 \<Rightarrow> historyEffect cur2)
              | None \<Rightarrow> Inr cur)
      | _ \<Rightarrow> Inr cur)"

section \<open>Capture and monitoring handlers\<close>

text \<open>\<open>startScreenCapture\<close>, on the stream \<open>getDisplayMedia\<close> gave (\<open>None\<close>: it was refused).\<close>

definition startScreenCapture :: "State \<Rightarrow> MediaStream option \<Rightarrow> State" where
  "startScreenCapture s acquired =
     (case acquired of
        Some stream \<Rightarrow>
          s\<lparr>streamRef := Some stream, isCapturing := True,
            toasts := toasts s @ [ToastCaptureActive]\<rparr>
      | None \<Rightarrow> s\<lparr>toasts := toasts s @ [ToastCaptureError]\<rparr>)"

definition openSettings :: "State \<Rightarrow> State" where
  "openSettings s = s\<lparr>showSettings := True\<rparr>"

definition closeSettings :: "State \<Rightarrow> State" where
  "closeSettings s = s\<lparr>showSettings := False\<rparr>"

definition setSensitivity :: "State \<Rightarrow> real \<Rightarrow> State" where
  "setSensitivity s v = s\<lparr>sensitivity := v\<rparr>"

definition handleAreaSelect :: "State \<Rightarrow> CaptureArea \<Rightarrow> State" where
  "handleAreaSelect s area =
     s\<lparr>captureArea := Some area, isMonitoring := True, showSettings := False,
       toasts := toasts s @ [ToastMonitoringStarted]\<rparr>"

text \<open>\<open>confirmSelection\<close> of the settings dialog: the only caller of \<open>handleAreaSelect\<close>.\<close>

definition confirmSelection :: "State \<Rightarrow> CaptureArea option \<Rightarrow> State" where
  "confirmSelection s selection =
     (case selection of
        Some area \<Rightarrow>
          (if width area > 50 \<and> height area > 50
           then closeSettings (handleAreaSelect s area) else s)
      | None \<Rightarrow> s)"

definition stopMonitoring :: "State \<Rightarrow> State" where
  "stopMonitoring s =
     (let s1 = s\<lparr>isMonitoring := False\<rparr>;
          s2 = (case streamRef s1 of
                  Some stream \<Rightarrow>
                    s1\<lparr>stoppedStreams := stoppedStreams s1 @ [stream], streamRef := None\<rparr>
                | None \<Rightarrow> s1)
      in s2\<lparr>captureArea := None, toasts := toasts s2 @ [ToastMonitoringStopped]\<rparr>)"

section \<open>The component and its monitoring interval\<close>

text \<open>
  The effect on \<open>[isMonitoring, captureArea]\<close> installs the interval. Its callback calls the
  \<open>analyzeScreen\<close> of the render in which the effect ran, and the effect runs again only
  when one of its two dependencies changes. The component is thus its current state
  together with the render the callback of the interval belongs to, if an interval exists.
\<close>

record Component =
  current :: State
  intervalRender :: "State option"

definition initialComponent :: Component where
  "initialComponent = \<lparr>current = initialState, intervalRender = None\<rparr>"

text \<open>The interval that the monitoring effect installs when it runs in render \<open>s\<close>.\<close>

definition monitoringEffect :: "State \<Rightarrow> State option" where
  "monitoringEffect s = (if isMonitoring s \<and> captureArea s \<noteq> None then Some s else None)"

text \<open>
  What can happen to the component: a click on a button that is shown and enabled, an
  action of the settings dialog while it is shown, or the interval firing. An event whose
  control is absent or disabled leaves the component as it is. \<open>handleAreaSelect\<close> stores a
  new area object and \<open>stopMonitoring\<close> clears both dependencies, so the monitoring effect
  runs again after these two and after no other handler.
\<close>

datatype Event =
    ClickStartCapture "MediaStream option"
  | ClickOpenSettings
  | ClickCloseSettings
  | MoveSlider real
  | ClickConfirmSelection "CaptureArea option"
  | ClickStopMonitoring
  | ClickResult Result int int int
  | ClickClear
  | IntervalFires "(Pixel list \<times> Pixel list) option" int int int int

definition dialogShown :: "State \<Rightarrow> bool" where
  "dialogShown s \<longleftrightarrow> showSettings s \<and> (isCapturing s \<or> isMonitoring s)"

definition selectionAccepted :: "CaptureArea option \<Rightarrow> bool" where
  "selectionAccepted selection =
     (case selection of Some area \<Rightarrow> width area > 50 \<and> height area > 50 | None \<Rightarrow> False)"

fun step :: "Component \<Rightarrow> Event \<Rightarrow> error + Component" where
  "step c (ClickStartCapture acquired) =
     (if \<not> isCapturing (current c) \<and> \<not> isMonitoring (current c)
      then Inr (c\<lparr>current := startScreenCapture (current c) acquired\<rparr>) else Inr c)"
| "step c ClickOpenSettings =
     (if isCapturing (current c) \<or> (captureArea (current c) \<noteq> None \<and> isMonitoring (current c))
      then Inr (c\<lparr>current := openSettings (current c)\<rparr>) else Inr c)"
| "step c ClickCloseSettings =
     (if dialogShown (current c)
      then Inr (c\<lparr>current := closeSettings (current c)\<rparr>) else Inr c)"
| "step c (MoveSlider v) =
     (if dialogShown (current c)
      then Inr (c\<lparr>current := setSensitivity (current c) v\<rparr>) else Inr c)"
| "step c (ClickConfirmSelection selection) =
     (if dialogShown (current c) \<and> selectionAccepted selection
      then (let s' = confirmSelection (current c) selection
            in Inr \<lparr>current = s', intervalRender = monitoringEffect s'\<rparr>)
      else Inr c)"
| "step c ClickStopMonitoring =
     (if isMonitoring (current c)
      then (let s' = stopMonitoring (current c)
            in Inr \<lparr>current = s', intervalRender = monitoringEffect s'\<rparr>)
      else Inr c)"
| "step c (ClickResult res now_guard now_id now_ts) =
     (if \<not> isMonitoring (current c)
      then (case addOutcome (current c) res now_guard now_id now_ts of
              Inl e \<Rightarrow> Inl e
            | Inr s' \<Rightarrow> Inr (c\<lparr>current := s'\<rparr>))
      else Inr c)"
| "step c ClickClear =
     (if history (current c) \<noteq> []
      then (case clearAll (current c) of
              Inl e \<Rightarrow> Inl e
            | Inr s' \<Rightarrow> Inr (c\<lparr>current := s'\<rparr>))
      else Inr c)"
| "step c (IntervalFires frame now_det now_guard now_id now_ts) =
     (case intervalRender c of
        None \<Rightarrow> Inr c
      | Some render \<Rightarrow>
          (case analyzeScreen render (current c) frame now_det now_guard now_id now_ts of
             Inl e \<Rightarrow> Inl e
           | Inr s' \<Rightarrow> Inr (c\<lparr>current := s'\<rparr>)))"

fun run :: "Component \<Rightarrow> Event list \<Rightarrow> error + Component" where
  "run c [] = Inr c"
| "run c (ev # evs) = (case step c ev of Inl e \<Rightarrow> Inl e | Inr c' \<Rightarrow> run c' evs)"

inductive reachable :: "Component \<Rightarrow> bool" where
  reach_init: "reachable initialComponent"
| reach_step: "reachable c \<Longrightarrow> step c ev = Inr c' \<Longrightarrow> reachable c'"

section \<open>Sequences of outcomes\<close>

text \<open>
  An outcome event is the outcome together with the three clock readings of its
  \<open>addResult\<close> call. \<open>appendAll\<close> dispatches the events in order, each as a click on a
  result button does; \<open>spaced\<close> holds when the
  guard of every event reads the clock at least 5000 ms after the timestamp given to the
  event before it.
\<close>

type_synonym outcome_event = "Result \<times> int \<times> int \<times> int"

fun appendAll :: "State \<Rightarrow> outcome_event list \<Rightarrow> error + State" where
  "appendAll s [] = Inr s"
| "appendAll s ((res, now_guard, now_id, now_ts) # es) =
     (case addOutcome s res now_guard now_id now_ts of
        Inl e \<Rightarrow> Inl e
      | Inr s' \<Rightarrow> appendAll s' es)"

fun spaced :: "outcome_event list \<Rightarrow> bool" where
  "spaced ((res1, guard1, id1, ts1) # (res2, guard2, id2, ts2) # es) =
     (guard2 - ts1 \<ge> 5000 \<and> spaced ((res2, guard2, id2, ts2) # es))"
| "spaced es = True"

section \<open>Invariants\<close>

text \<open>
  \<open>counters_ok n m\<close>: the counters of method \<open>m\<close> are those of a history of \<open>n\<close> entries.
  \<open>methods_ok\<close>: the ensemble keeps its declared names, a prediction is current exactly
  when the history is non-empty, and every method's counters fit the history.
  \<open>history_ok\<close>: identifiers increase strictly along the history and no entry's identifier
  is later than its timestamp. \<open>counters_sound\<close>: what holds of a method's counters whatever
  the history; \<open>ensemble_ok\<close> and \<open>component_ok\<close> extend it to a state and to the component
  with the render of its interval.
\<close>

definition counters_ok :: "nat \<Rightarrow> PredictionMethod \<Rightarrow> bool" where
  "counters_ok n m \<longleftrightarrow>
     predictions m = n - 1 \<and> correct m \<le> predictions m \<and>
     accuracy m = (if predictions m > 0 then real (correct m) / real (predictions m) * 100 else 0)"

definition methods_ok :: "State \<Rightarrow> bool" where
  "methods_ok s \<longleftrightarrow>
     map name (methods s) = map name initialMethods \<and>
     (currentPrediction s = None \<longleftrightarrow> history s = []) \<and>
     (\<forall>m \<in> set (methods s). counters_ok (length (history s)) m)"

definition counters_sound :: "PredictionMethod \<Rightarrow> bool" where
  "counters_sound m \<longleftrightarrow>
     correct m \<le> predictions m \<and>
     accuracy m = (if predictions m > 0 then real (correct m) / real (predictions m) * 100 else 0)"

definition ensemble_ok :: "State \<Rightarrow> bool" where
  "ensemble_ok s \<longleftrightarrow>
     map name (methods s) = map name initialMethods \<and> (\<forall>m \<in> set (methods s). counters_sound m)"

definition component_ok :: "Component \<Rightarrow> bool" where
  "component_ok c \<longleftrightarrow>
     ensemble_ok (current c) \<and>
     (case intervalRender c of None \<Rightarrow> True | Some render \<Rightarrow> ensemble_ok render)"

definition history_ok :: "HistoryEntry list \<Rightarrow> bool" where
  "history_ok h \<longleftrightarrow>
     sorted_wrt (<) (map entry_id h) \<and> (\<forall>e \<in> set h. entry_id e \<le> timestamp e)"

section \<open>Notions of the specification\<close>

text \<open>
  The terms the claims are stated in, written from the specification's words:
  \<open>first_max ms i\<close>, position \<open>i\<close> holds the maximum accuracy of \<open>ms\<close> and is the earliest
  position that does; \<open>dominanceFraction\<close>, the matching-pixel count over the pixel count
  of a half; \<open>transitionCount a b hist\<close>, the number of adjacent pairs of \<open>hist\<close> that go
  from \<open>a\<close> to \<open>b\<close>; \<open>opposite\<close>, the other outcome.
\<close>

definition first_max :: "PredictionMethod list \<Rightarrow> nat \<Rightarrow> bool" where
  "first_max ms i \<longleftrightarrow>
     i < length ms
     \<and> (\<forall>j < length ms. accuracy (ms ! j) \<le> accuracy (ms ! i))
     \<and> (\<forall>j < i. accuracy (ms ! j) < accuracy (ms ! i))"

definition dominanceFraction :: "Color \<Rightarrow> Pixel list \<Rightarrow> real" where
  "dominanceFraction color half =
     real (length (filter (matches_color color) half)) / real (length half)"

definition transitionCount :: "Result \<Rightarrow> Result \<Rightarrow> HistoryEntry list \<Rightarrow> nat" where
  "transitionCount a b hist =
     length (filter (\<lambda>(x, y). result x = a \<and> result y = b) (zip hist (tl hist)))"

definition opposite :: "Result \<Rightarrow> Result" where
  "opposite r = (case r of Alpha \<Rightarrow> Omega | Omega \<Rightarrow> Alpha)"

section \<open>Properties of the handlers\<close>

lemma foldl_best_in:
  "foldl (\<lambda>best current. if accuracy current > accuracy best then current else best) m rest
     \<in> set (m # rest)"
proof (induction rest arbitrary: m)
  case Nil
  show ?case by simp
next
  case (Cons a rest)
  let ?m' = "if accuracy a > accuracy m then a else m"
  from Cons.IH [of ?m'] show ?case by (auto split: if_splits)
qed

lemma bestMethodObj_in: "bestMethodObj ms = Inr best \<Longrightarrow> best \<in> set ms"
  using foldl_best_in by (auto simp: bestMethodObj_def split: list.splits)

lemma makePrediction_fields:
  assumes "makePrediction s = Inr s'"
  shows "history s' = history s"
    and "currentPrediction s' \<noteq> None"
    and "map name (methods s') = map name (methods s)"
    and "map predictions (methods s') = map predictions (methods s)"
    and "map correct (methods s') = map correct (methods s)"
    and "map accuracy (methods s') = map accuracy (methods s)"
proof -
  let ?ums = "map (\<lambda>method. method\<lparr>lastPrediction := Some (predict method (history s))\<rparr>) (methods s)"
  from assms obtain best where b: "bestMethodObj ?ums = Inr best"
    and s': "s' = s\<lparr>currentPrediction := lastPrediction best, bestMethod := name best, methods := ?ums\<rparr>"
    by (auto simp: makePrediction_def Let_def split: sum.splits)
  from bestMethodObj_in [OF b] have "lastPrediction best \<noteq> None" by auto
  with s' show "currentPrediction s' \<noteq> None" by simp
  from s' show "history s' = history s" by simp
  from s' show "map name (methods s') = map name (methods s)" by (simp add: comp_def)
  from s' show "map predictions (methods s') = map predictions (methods s)" by (simp add: comp_def)
  from s' show "map correct (methods s') = map correct (methods s)" by (simp add: comp_def)
  from s' show "map accuracy (methods s') = map accuracy (methods s)" by (simp add: comp_def)
qed

lemma all_counters_ok_maps:
  assumes "map predictions ms' = map predictions ms"
    and "map correct ms' = map correct ms"
    and "map accuracy ms' = map accuracy ms"
    and "\<forall>m \<in> set ms. counters_ok n m"
  shows "\<forall>m \<in> set ms'. counters_ok n m"
proof
  fix m' assume "m' \<in> set ms'"
  then obtain i where i: "i < length ms'" "m' = ms' ! i" by (auto simp: in_set_conv_nth)
  from assms(1) have len: "length ms' = length ms" by (metis length_map)
  from i len have "predictions m' = predictions (ms ! i)"
    using assms(1) by (metis nth_map)
  moreover from i len have "correct m' = correct (ms ! i)"
    using assms(2) by (metis nth_map)
  moreover from i len have "accuracy m' = accuracy (ms ! i)"
    using assms(3) by (metis nth_map)
  moreover from i len assms(4) have "counters_ok n (ms ! i)" by simp
  ultimately show "counters_ok n m'" by (simp add: counters_ok_def)
qed

lemma scoreMethod_counters:
  "counters_ok n m \<Longrightarrow> 0 < n \<Longrightarrow> counters_ok (Suc n) (scoreMethod hist res m)"
  by (auto simp: counters_ok_def scoreMethod_def Let_def)

lemma scoreMethod_name: "name (scoreMethod hist res m) = name m"
  by (simp add: scoreMethod_def Let_def)

lemma counters_ok_first: "counters_ok 0 m \<Longrightarrow> counters_ok (Suc 0) m"
  by (simp add: counters_ok_def)

lemma addOutcome_methods_ok:
  assumes ok: "methods_ok s" and step: "addOutcome s res ng ni nt = Inr s'"
  shows "methods_ok s'"
proof (cases "addResult s s res ng ni nt")
  case None
  with step show ?thesis using ok by (simp add: addOutcome_def)
next
  case (Some s1)
  with step have eff: "historyEffect s1 = Inr s'" by (simp add: addOutcome_def)
  from Some have h1: "history s1 = history s @ [\<lparr>entry_id = ni, result = res, timestamp = nt\<rparr>]"
    by (auto simp: addResult_def Let_def split: if_splits)
  from Some have m1: "methods s1 =
      (if currentPrediction s \<noteq> None then map (scoreMethod (history s) res) (methods s)
       else methods s)"
    by (auto simp: addResult_def Let_def split: if_splits)
  have n1: "map name (methods s1) = map name initialMethods"
    using ok m1 by (auto simp: methods_ok_def comp_def scoreMethod_name)
  have c1: "\<forall>m \<in> set (methods s1). counters_ok (length (history s1)) m"
  proof (cases "currentPrediction s")
    case None
    with ok have "history s = []" by (simp add: methods_ok_def)
    with ok None m1 h1 show ?thesis
      by (auto simp: methods_ok_def counters_ok_first)
  next
    case (Some p)
    with ok have "0 < length (history s)" by (simp add: methods_ok_def)
    with ok Some m1 h1 show ?thesis
      by (auto simp: methods_ok_def scoreMethod_counters)
  qed
  from h1 eff have mp: "makePrediction s1 = Inr s'" by (simp add: historyEffect_def)
  note f = makePrediction_fields [OF mp]
  have "\<forall>m \<in> set (methods s'). counters_ok (length (history s')) m"
    using all_counters_ok_maps [OF f(4) f(5) f(6)] c1 f(1) by simp
  with f(1,2,3) n1 h1 show ?thesis by (simp add: methods_ok_def)
qed

lemma clearHistory_methods_ok:
  "map name (methods s) = map name initialMethods \<Longrightarrow> methods_ok (clearHistory s)"
  by (auto simp: methods_ok_def clearHistory_def comp_def counters_ok_def)

lemma clearAll_eq: "clearAll s = Inr (clearHistory s)"
  by (simp add: clearAll_def historyEffect_def clearHistory_def)

lemma initial_methods_ok: "methods_ok initialState"
  by (simp add: methods_ok_def initialState_def initialMethods_def newMethod_def counters_ok_def)

lemma historyEffect_history:
  "historyEffect s = Inr s' \<Longrightarrow> history s' = history s"
  by (auto simp: historyEffect_def makePrediction_def Let_def split: if_splits sum.splits)

lemma makePrediction_total:
  "methods s \<noteq> [] \<Longrightarrow> \<exists>s'. makePrediction s = Inr s'"
  by (cases "methods s") (auto simp: makePrediction_def bestMethodObj_def Let_def)

lemma historyEffect_total:
  "methods s \<noteq> [] \<Longrightarrow> \<exists>s'. historyEffect s = Inr s'"
  using makePrediction_total by (auto simp: historyEffect_def)

lemma addResult_fields:
  "addResult render cur res ng ni nt = Some s' \<Longrightarrow>
     history s' = history render @ [\<lparr>entry_id = ni, result = res, timestamp = nt\<rparr>]
     \<and> methods s' =
          (if currentPrediction render \<noteq> None
           then map (scoreMethod (history render) res) (methods render) else methods cur)
     \<and> toasts s' = toasts cur @ [ToastResultAdded res]"
  by (auto simp: addResult_def Let_def split: if_splits)

lemma addResult_accepted:
  "addResult render cur res ng ni nt = Some s' \<Longrightarrow>
     history render = [] \<or> timestamp (last (history render)) + 5000 \<le> ng"
  by (auto simp: addResult_def Let_def split: if_splits)

lemma accepted_addResult:
  "history render = [] \<or> timestamp (last (history render)) + 5000 \<le> ng \<Longrightarrow>
   \<exists>s1. addResult render cur res ng ni nt = Some s1"
  by (auto simp: addResult_def Let_def)

lemma addOutcome_total:
  assumes "methods s \<noteq> []"
  shows "\<exists>s'. addOutcome s res ng ni nt = Inr s'"
proof (cases "addResult s s res ng ni nt")
  case None
  then show ?thesis by (simp add: addOutcome_def)
next
  case (Some s1)
  with addResult_fields [OF Some] assms have "methods s1 \<noteq> []" by auto
  with Some show ?thesis using historyEffect_total by (simp add: addOutcome_def)
qed

lemma addOutcome_history:
  assumes "addOutcome s res ng ni nt = Inr s'"
  shows "history s' =
     (case addResult s s res ng ni nt of
        None \<Rightarrow> history s
      | Some s1 \<Rightarrow> history s @ [\<lparr>entry_id = ni, result = res, timestamp = nt\<rparr>])"
proof (cases "addResult s s res ng ni nt")
  case None
  with assms show ?thesis by (simp add: addOutcome_def)
next
  case (Some s1)
  with assms have "historyEffect s1 = Inr s'" by (simp add: addOutcome_def)
  from historyEffect_history [OF this] addResult_fields [OF Some] Some show ?thesis by simp
qed

lemma history_ok_last:
  assumes "history_ok h" and "h \<noteq> []" and "e \<in> set h"
  shows "entry_id e \<le> timestamp (last h)"
proof -
  from assms(2) obtain xs x where h: "h = xs @ [x]" by (metis rev_exhaust)
  with assms(1) have srt: "\<forall>y \<in> set xs. entry_id y < entry_id x" and x: "entry_id x \<le> timestamp x"
    by (auto simp: history_ok_def sorted_wrt_append)
  from assms(3) h have "e = x \<or> e \<in> set xs" by auto
  with srt x h show ?thesis by auto
qed

lemma history_ok_append:
  assumes ok: "history_ok h" and acc: "h = [] \<or> timestamp (last h) + 5000 \<le> ng"
    and clock: "ng \<le> ni" "ni \<le> nt"
  shows "history_ok (h @ [\<lparr>entry_id = ni, result = res, timestamp = nt\<rparr>])"
    and "\<forall>e \<in> set h. entry_id e < ni"
proof -
  show lt: "\<forall>e \<in> set h. entry_id e < ni"
  proof
    fix e assume e: "e \<in> set h"
    then have "h \<noteq> []" by auto
    with acc have "timestamp (last h) + 5000 \<le> ng" by simp
    moreover from history_ok_last [OF ok \<open>h \<noteq> []\<close> e] have "entry_id e \<le> timestamp (last h)" .
    ultimately show "entry_id e < ni" using clock by linarith
  qed
  with ok clock show "history_ok (h @ [\<lparr>entry_id = ni, result = res, timestamp = nt\<rparr>])"
    by (auto simp: history_ok_def sorted_wrt_append)
qed

lemma methods_ok_nonempty: "methods_ok s \<Longrightarrow> methods s \<noteq> []"
  by (auto simp: methods_ok_def initialMethods_def)

lemma appendAll_spaced:
  assumes "methods_ok s" and "spaced es"
    and "es \<noteq> [] \<Longrightarrow> history s = [] \<or> timestamp (last (history s)) + 5000 \<le> fst (snd (hd es))"
  shows "\<exists>s'. appendAll s es = Inr s' \<and> methods_ok s'
           \<and> map result (history s') = map result (history s) @ map fst es"
  using assms
proof (induction es arbitrary: s)
  case Nil
  then show ?case by simp
next
  case (Cons ev es)
  obtain res ng ni nt where ev: "ev = (res, ng, ni, nt)" by (cases ev) auto
  from Cons.prems(3) ev obtain s1 where s1: "addResult s s res ng ni nt = Some s1"
    using accepted_addResult by fastforce
  from methods_ok_nonempty [OF Cons.prems(1)] obtain s2
    where s2: "addOutcome s res ng ni nt = Inr s2"
    using addOutcome_total by blast
  from addOutcome_history [OF s2] s1
  have h2: "history s2 = history s @ [\<lparr>entry_id = ni, result = res, timestamp = nt\<rparr>]"
    by simp
  have ok2: "methods_ok s2" using addOutcome_methods_ok [OF Cons.prems(1) s2] .
  have sp: "spaced es" using Cons.prems(2) ev by (cases es) auto
  have nxt: "es \<noteq> [] \<Longrightarrow>
      history s2 = [] \<or> timestamp (last (history s2)) + 5000 \<le> fst (snd (hd es))"
    using Cons.prems(2) ev h2 by (cases es) auto
  from Cons.IH [OF ok2 sp nxt] obtain s' where
    "appendAll s2 es = Inr s'" "methods_ok s'"
    "map result (history s') = map result (history s2) @ map fst es"
    by blast
  with s2 h2 ev show ?case by simp
qed

lemma methods_ok_counters:
  "methods_ok s \<Longrightarrow> m \<in> set (methods s) \<Longrightarrow>
     predictions m = length (history s) - 1 \<and> correct m \<le> predictions m
     \<and> accuracy m = (if predictions m > 0
                       then real (correct m) / real (predictions m) * 100 else 0)"
  unfolding methods_ok_def counters_ok_def by blast

lemma length_filter_result:
  "length (filter (\<lambda>h. result h = r) hist) = count_list (map result hist) r"
  by (induction hist) auto

lemma foldl_first_max:
  "\<exists>i. first_max (m # rest) i
     \<and> foldl (\<lambda>best current. if accuracy current > accuracy best then current else best) m rest
         = (m # rest) ! i"
proof (induction rest rule: rev_induct)
  case Nil
  show ?case by (simp add: first_max_def)
next
  case (snoc x rest)
  let ?f = "\<lambda>best current. if accuracy current > accuracy best then current else best"
  let ?xs = "m # rest"
  from snoc obtain i where i: "first_max ?xs i" and b: "foldl ?f m rest = ?xs ! i" by blast
  from i have il: "i < length ?xs"
    and mx: "\<And>j. j < length ?xs \<Longrightarrow> accuracy (?xs ! j) \<le> accuracy (?xs ! i)"
    and fs: "\<And>j. j < i \<Longrightarrow> accuracy (?xs ! j) < accuracy (?xs ! i)"
    by (auto simp: first_max_def)
  have app: "m # rest @ [x] = ?xs @ [x]" by simp
  show ?case
  proof (cases "accuracy x > accuracy (?xs ! i)")
    case True
    have "first_max (?xs @ [x]) (length ?xs)"
      unfolding first_max_def
    proof (intro conjI allI impI)
      show "length ?xs < length (?xs @ [x])" by simp
    next
      fix j assume "j < length (?xs @ [x])"
      then have "j < length ?xs \<or> j = length ?xs" by auto
      then show "accuracy ((?xs @ [x]) ! j) \<le> accuracy ((?xs @ [x]) ! length ?xs)"
      proof
        assume j: "j < length ?xs"
        from mx [OF j] True have "accuracy (?xs ! j) \<le> accuracy x" by linarith
        with j show ?thesis by (simp only: nth_append nth_append_length) simp
      next
        assume "j = length ?xs"
        then show ?thesis by simp
      qed
    next
      fix j assume j: "j < length ?xs"
      from mx [OF j] True have "accuracy (?xs ! j) < accuracy x" by linarith
      with j show "accuracy ((?xs @ [x]) ! j) < accuracy ((?xs @ [x]) ! length ?xs)"
        by (simp only: nth_append nth_append_length) simp
    qed
    moreover from True b have "foldl ?f m (rest @ [x]) = (?xs @ [x]) ! length ?xs"
      by (simp only: foldl_append nth_append_length) simp
    ultimately show ?thesis unfolding app by blast
  next
    case False
    have "first_max (?xs @ [x]) i"
      unfolding first_max_def
    proof (intro conjI allI impI)
      show "i < length (?xs @ [x])" using il by simp
    next
      fix j assume "j < length (?xs @ [x])"
      then have "j < length ?xs \<or> j = length ?xs" by auto
      then show "accuracy ((?xs @ [x]) ! j) \<le> accuracy ((?xs @ [x]) ! i)"
      proof
        assume j: "j < length ?xs"
        from mx [OF j] j il show ?thesis by (simp only: nth_append) simp
      next
        assume j: "j = length ?xs"
        from False have "accuracy x \<le> accuracy (?xs ! i)" by simp
        with j il show ?thesis by (simp only: nth_append nth_append_length) simp
      qed
    next
      fix j assume j: "j < i"
      with il have "j < length ?xs" by simp
      with fs [OF j] il show "accuracy ((?xs @ [x]) ! j) < accuracy ((?xs @ [x]) ! i)"
        by (simp only: nth_append) simp
    qed
    moreover from False b il have "foldl ?f m (rest @ [x]) = (?xs @ [x]) ! i"
      by (simp only: foldl_append nth_append) simp
    ultimately show ?thesis unfolding app by blast
  qed
qed

lemma bestMethodObj_first_max:
  "ms \<noteq> [] \<Longrightarrow> \<exists>i. first_max ms i \<and> bestMethodObj ms = Inr (ms ! i)"
  using foldl_first_max by (cases ms) (auto simp: bestMethodObj_def)

lemma first_max_map_lastPrediction:
  "first_max (map (\<lambda>method. method\<lparr>lastPrediction := p method\<rparr>) ms) i = first_max ms i"
  by (auto simp: first_max_def)

lemma foldl_best_keep:
  "\<forall>x \<in> set rest. accuracy x \<le> accuracy m \<Longrightarrow>
   foldl (\<lambda>best current. if accuracy current > accuracy best then current else best) m rest = m"
  by (induction rest) auto

lemma bestMethodObj_all_zero:
  "ms \<noteq> [] \<Longrightarrow> \<forall>m \<in> set ms. accuracy m = 0 \<Longrightarrow> bestMethodObj ms = Inr (hd ms)"
  by (cases ms) (auto simp: bestMethodObj_def foldl_best_keep)

lemma matching_loop_count:
  "matching_loop color ps n = n + length (filter (matches_color color) ps)"
  by (induction ps arbitrary: n) auto

lemma analyzeColorDominance_fraction:
  "half \<noteq> [] \<Longrightarrow> analyzeColorDominance half color = Some (dominanceFraction color half)"
  by (simp add: analyzeColorDominance_def dominanceFraction_def matching_loop_count)

lemma dominanceFraction_all:
  "half \<noteq> [] \<Longrightarrow> \<forall>p \<in> set half. matches_color color p \<Longrightarrow> dominanceFraction color half = 1"
  by (simp add: dominanceFraction_def)

lemma dominanceFraction_none:
  "\<forall>p \<in> set half. \<not> matches_color color p \<Longrightarrow> dominanceFraction color half = 0"
proof -
  assume "\<forall>p \<in> set half. \<not> matches_color color p"
  then have "filter (matches_color color) half = []" by (simp add: filter_empty_conv)
  then show ?thesis by (simp add: dominanceFraction_def)
qed

lemma transitionCount_short: "length hist \<le> 1 \<Longrightarrow> transitionCount a b hist = 0"
  by (cases hist) (auto simp: transitionCount_def)

lemma transitionCount_step:
  assumes "i + 1 < length hist"
  shows "transitionCount a b (drop i hist) =
           (if result (hist ! i) = a \<and> result (hist ! (i + 1)) = b then 1 else 0)
           + transitionCount a b (drop (i + 1) hist)"
proof -
  from assms have "i < length hist" by simp
  then have d1: "drop i hist = hist ! i # drop (Suc i) hist" by (simp add: Cons_nth_drop_Suc)
  from assms have d2: "drop (Suc i) hist = hist ! Suc i # drop (Suc (Suc i)) hist"
    by (simp add: Cons_nth_drop_Suc)
  show ?thesis
    unfolding transitionCount_def d1 by (simp add: d2)
qed

lemma count_transition_fields:
  "alphaAlpha (count_transition c n t) = alphaAlpha t + (if c = Alpha \<and> n = Alpha then 1 else 0)"
  "alphaOmega (count_transition c n t) = alphaOmega t + (if c = Alpha \<and> n = Omega then 1 else 0)"
  "omegaAlpha (count_transition c n t) = omegaAlpha t + (if c = Omega \<and> n = Alpha then 1 else 0)"
  "omegaOmega (count_transition c n t) = omegaOmega t + (if c = Omega \<and> n = Omega then 1 else 0)"
  by (cases c; cases n; simp add: count_transition_def)+

lemma transitions_loop_counts:
  "alphaAlpha (transitions_loop hist i t) = alphaAlpha t + transitionCount Alpha Alpha (drop i hist)
   \<and> alphaOmega (transitions_loop hist i t) = alphaOmega t + transitionCount Alpha Omega (drop i hist)
   \<and> omegaAlpha (transitions_loop hist i t) = omegaAlpha t + transitionCount Omega Alpha (drop i hist)
   \<and> omegaOmega (transitions_loop hist i t) = omegaOmega t + transitionCount Omega Omega (drop i hist)"
proof (induction hist i t rule: transitions_loop.induct)
  case (1 hist i t)
  show ?case
  proof (cases "i + 1 < length hist")
    case True
    note IH = "1.IH" [OF True]
    have unf: "transitions_loop hist i t =
        transitions_loop hist (i + 1)
          (count_transition (result (hist ! i)) (result (hist ! (i + 1))) t)"
      using True by (subst transitions_loop.simps) simp
    show ?thesis
      unfolding unf using IH
      by (simp add: count_transition_fields transitionCount_step [OF True])
  next
    case False
    then have "length (drop i hist) \<le> 1" by simp
    then have z: "transitionCount a b (drop i hist) = 0" for a b
      by (rule transitionCount_short)
    from False have "transitions_loop hist i t = t"
      by (subst transitions_loop.simps) simp
    with z show ?thesis by simp
  qed
qed

subsection \<open>The component and its reachable states\<close>

lemma scoreMethod_sound: "counters_sound m \<Longrightarrow> counters_sound (scoreMethod hist res m)"
  by (auto simp: counters_sound_def scoreMethod_def Let_def)

lemma ensemble_ok_methods: "methods s' = methods s \<Longrightarrow> ensemble_ok s' = ensemble_ok s"
  by (simp add: ensemble_ok_def)

lemma initial_ensemble_ok: "ensemble_ok initialState"
  by (simp add: ensemble_ok_def counters_sound_def initialState_def initialMethods_def
      newMethod_def)

lemma makePrediction_ensemble_ok:
  assumes "ensemble_ok s" and "makePrediction s = Inr s'"
  shows "ensemble_ok s'"
proof -
  from assms(2) have "methods s' =
      map (\<lambda>method. method\<lparr>lastPrediction := Some (predict method (history s))\<rparr>) (methods s)"
    by (auto simp: makePrediction_def Let_def split: sum.splits)
  with assms(1) show ?thesis
    by (auto simp: ensemble_ok_def counters_sound_def comp_def)
qed

lemma historyEffect_ensemble_ok:
  "ensemble_ok s \<Longrightarrow> historyEffect s = Inr s' \<Longrightarrow> ensemble_ok s'"
  using makePrediction_ensemble_ok by (auto simp: historyEffect_def split: if_splits)

lemma addResult_ensemble_ok:
  assumes "ensemble_ok render" and "ensemble_ok cur"
    and "addResult render cur res ng ni nt = Some s'"
  shows "ensemble_ok s'"
proof -
  note f = addResult_fields [OF assms(3)]
  show ?thesis
  proof (cases "currentPrediction render")
    case None
    with f have "methods s' = methods cur" by simp
    with assms(2) show ?thesis by (simp add: ensemble_ok_def)
  next
    case (Some p)
    with f have "methods s' = map (scoreMethod (history render) res) (methods render)" by simp
    with assms(1) show ?thesis
      by (auto simp: ensemble_ok_def comp_def scoreMethod_name scoreMethod_sound)
  qed
qed

lemma addOutcome_ensemble_ok:
  assumes "ensemble_ok s" and "addOutcome s res ng ni nt = Inr s'"
  shows "ensemble_ok s'"
proof (cases "addResult s s res ng ni nt")
  case None
  with assms show ?thesis by (simp add: addOutcome_def)
next
  case (Some s1)
  with assms(2) have "historyEffect s1 = Inr s'" by (simp add: addOutcome_def)
  with addResult_ensemble_ok [OF assms(1) assms(1) Some] show ?thesis
    by (rule historyEffect_ensemble_ok)
qed

lemma clearHistory_ensemble_ok: "ensemble_ok s \<Longrightarrow> ensemble_ok (clearHistory s)"
  by (auto simp: ensemble_ok_def counters_sound_def clearHistory_def comp_def)

lemma analyzeScreen_ensemble_ok:
  assumes "ensemble_ok render" and "ensemble_ok cur"
    and "analyzeScreen render cur frame nd ng ni nt = Inr s'"
  shows "ensemble_ok s'"
proof -
  have step: "ensemble_ok s'"
    if a: "(case addResult render cur1 res ng ni nt of
              None \<Rightarrow> Inr cur1 | Some cur2 \<Rightarrow> historyEffect cur2) = Inr s'"
      and c1: "ensemble_ok cur1" for cur1 res
  proof (cases "addResult render cur1 res ng ni nt")
    case None
    with a c1 show ?thesis by simp
  next
    case (Some cur2)
    with a have "historyEffect cur2 = Inr s'" by simp
    with addResult_ensemble_ok [OF assms(1) c1 Some] show ?thesis
      by (rule historyEffect_ensemble_ok)
  qed
  have ld: "ensemble_ok (cur\<lparr>lastDetected := x\<rparr>)" for x
    using assms(2) by (simp add: ensemble_ok_def)
  from assms(3) show ?thesis
    using assms(2) step ld
    by (auto simp: analyzeScreen_def Let_def split: option.splits prod.splits)
qed

lemma handlers_methods:
  "methods (startScreenCapture s acquired) = methods s"
  "methods (openSettings s) = methods s"
  "methods (closeSettings s) = methods s"
  "methods (setSensitivity s v) = methods s"
  "methods (handleAreaSelect s area) = methods s"
  "methods (confirmSelection s selection) = methods s"
  "methods (stopMonitoring s) = methods s"
  by (auto simp: startScreenCapture_def openSettings_def closeSettings_def
      setSensitivity_def handleAreaSelect_def confirmSelection_def stopMonitoring_def Let_def
      split: option.splits)

lemma monitoringEffect_ok:
  "ensemble_ok s \<Longrightarrow> (case monitoringEffect s of None \<Rightarrow> True | Some render \<Rightarrow> ensemble_ok render)"
  by (simp add: monitoringEffect_def)

lemma step_component_ok:
  assumes "component_ok c" and "step c ev = Inr c'"
  shows "component_ok c'"
proof -
  from assms(1) have cur: "ensemble_ok (current c)"
    and int: "\<And>render. intervalRender c = Some render \<Longrightarrow> ensemble_ok render"
    by (auto simp: component_ok_def)
  have keep: "component_ok (c\<lparr>current := s'\<rparr>)" if "ensemble_ok s'" for s'
    using that assms(1) by (simp add: component_ok_def)
  have fresh: "component_ok \<lparr>current = s', intervalRender = monitoringEffect s'\<rparr>"
    if "ensemble_ok s'" for s'
    using that monitoringEffect_ok [OF that] by (simp add: component_ok_def)
  have same: "ensemble_ok s'" if "methods s' = methods (current c)" for s'
    using that cur by (simp add: ensemble_ok_def)
  show ?thesis
  proof (cases ev)
    case (ClickStartCapture acquired)
    with assms show ?thesis by (auto split: if_splits intro!: keep same simp: handlers_methods)
  next
    case ClickOpenSettings
    with assms show ?thesis by (auto split: if_splits intro!: keep same simp: handlers_methods)
  next
    case ClickCloseSettings
    with assms show ?thesis by (auto split: if_splits intro!: keep same simp: handlers_methods)
  next
    case (MoveSlider v)
    with assms show ?thesis by (auto split: if_splits intro!: keep same simp: handlers_methods)
  next
    case (ClickConfirmSelection selection)
    with assms show ?thesis
      by (auto simp: Let_def handlers_methods split: if_splits intro!: fresh same)
  next
    case ClickStopMonitoring
    with assms show ?thesis
      by (auto simp: Let_def handlers_methods split: if_splits intro!: fresh same)
  next
    case (ClickResult res ng ni nt)
    with assms show ?thesis
      by (auto split: if_splits sum.splits intro!: keep dest: addOutcome_ensemble_ok [OF cur])
  next
    case ClickClear
    with assms show ?thesis
      by (auto split: if_splits sum.splits intro!: keep
          simp: clearAll_eq clearHistory_ensemble_ok [OF cur])
  next
    case (IntervalFires frame nd ng ni nt)
    with assms show ?thesis
      by (auto split: option.splits sum.splits intro!: keep
          dest: analyzeScreen_ensemble_ok [OF int cur])
  qed
qed

lemma reachable_component_ok: "reachable c \<Longrightarrow> component_ok c"
proof (induction rule: reachable.induct)
  case reach_init
  show ?case
    by (simp add: component_ok_def initialComponent_def initial_ensemble_ok)
next
  case (reach_step c ev c')
  then show ?case using step_component_ok by blast
qed

lemma ensemble_ok_first_name:
  "ensemble_ok s \<Longrightarrow> methods s \<noteq> [] \<and> name (hd (methods s)) = name_frequency"
  by (cases "methods s") (auto simp: ensemble_ok_def initialMethods_def newMethod_def)

lemma ensemble_ok_nonempty: "ensemble_ok s \<Longrightarrow> methods s \<noteq> []"
  by (auto simp: ensemble_ok_def initialMethods_def)

lemma analyzeScreen_total:
  assumes "ensemble_ok render" and "ensemble_ok cur"
  shows "\<exists>s'. analyzeScreen render cur frame nd ng ni nt = Inr s'"
proof -
  have "\<exists>s'. (case addResult render cur1 res ng ni nt of
              None \<Rightarrow> Inr cur1 | Some cur2 \<Rightarrow> historyEffect cur2) = Inr s'"
    if c1: "ensemble_ok cur1" for cur1 res
  proof (cases "addResult render cur1 res ng ni nt")
    case None
    then show ?thesis by simp
  next
    case (Some cur2)
    from addResult_ensemble_ok [OF assms(1) c1 Some] have "methods cur2 \<noteq> []"
      by (rule ensemble_ok_nonempty)
    with Some show ?thesis using historyEffect_total by simp
  qed
  moreover have "ensemble_ok (cur\<lparr>lastDetected := x\<rparr>)" for x
    using assms(2) by (simp add: ensemble_ok_def)
  ultimately show ?thesis
    by (auto simp: analyzeScreen_def Let_def split: option.splits prod.splits)
qed

lemma step_total:
  assumes "component_ok c"
  shows "\<exists>c'. step c ev = Inr c'"
proof -
  from assms have cur: "ensemble_ok (current c)"
    and int: "\<And>render. intervalRender c = Some render \<Longrightarrow> ensemble_ok render"
    by (auto simp: component_ok_def)
  show ?thesis
  proof (cases ev)
    case (ClickResult res ng ni nt)
    from addOutcome_total [OF ensemble_ok_nonempty [OF cur], of res ng ni nt]
    show ?thesis using ClickResult by auto
  next
    case ClickClear
    then show ?thesis by (simp add: clearAll_eq)
  next
    case (IntervalFires frame nd ng ni nt)
    show ?thesis
    proof (cases "intervalRender c")
      case None
      with IntervalFires show ?thesis by simp
    next
      case (Some render)
      from analyzeScreen_total [OF int [OF Some] cur, of frame nd ng ni nt]
      show ?thesis using IntervalFires Some by auto
    qed
  qed (simp_all add: Let_def)
qed

lemma reachable_counters_sound:
  "reachable c \<Longrightarrow> m \<in> set (methods (current c)) \<Longrightarrow>
     correct m \<le> predictions m
     \<and> accuracy m = (if predictions m > 0
                       then real (correct m) / real (predictions m) * 100 else 0)"
  using reachable_component_ok [of c]
  unfolding component_ok_def ensemble_ok_def counters_sound_def by blast

lemma reachable_step_total: "reachable c \<Longrightarrow> \<exists>c'. step c ev = Inr c'"
  using reachable_component_ok step_total by blast

subsection \<open>The click path\<close>

text \<open>
  A click runs the handler of the current render, so what it reads is what it writes. On
  this path outcomes are appended and scored, the guard compares with the latest entry,
  and a tick whose render is the current one decides with the current sensitivity.
\<close>

lemma manual_counters_after_appends:
  assumes "methods_ok s0" and "history s0 = []" and "es \<noteq> []" and "spaced es"
  shows "\<exists>s'. appendAll s0 es = Inr s'
            \<and> map result (history s') = map fst es
            \<and> (\<forall>m \<in> set (methods s').
                  predictions m = length es - 1
                  \<and> correct m \<le> predictions m
                  \<and> accuracy m =
                      (if predictions m > 0
                       then real (correct m) / real (predictions m) * 100 else 0))"
proof -
  from appendAll_spaced [OF assms(1) assms(4)] assms(2)
  obtain s' where s': "appendAll s0 es = Inr s'" "methods_ok s'"
    "map result (history s') = map fst es"
    by auto
  from s'(3) have "length (history s') = length es" by (metis length_map)
  with s'(2) have "\<forall>m \<in> set (methods s').
      predictions m = length es - 1 \<and> correct m \<le> predictions m
      \<and> accuracy m = (if predictions m > 0
                       then real (correct m) / real (predictions m) * 100 else 0)"
    using methods_ok_counters by metis
  with s' show ?thesis by blast
qed

lemma manual_append_extends_history:
  assumes "history_ok (history s)" and "ng \<le> ni"
    and "addResult s s res ng ni nt = Some s1"
  shows "history s1 = history s @ [\<lparr>entry_id = ni, result = res, timestamp = nt\<rparr>]
         \<and> length (history s1) = length (history s) + 1
         \<and> (\<forall>e \<in> set (history s). entry_id e < ni)"
proof -
  note f = addResult_fields [OF assms(3)]
  have "\<forall>e \<in> set (history s). entry_id e < ni"
  proof
    fix e assume e: "e \<in> set (history s)"
    then have ne: "history s \<noteq> []" by auto
    with addResult_accepted [OF assms(3)] have "timestamp (last (history s)) + 5000 \<le> ng"
      by simp
    moreover from history_ok_last [OF assms(1) ne e]
    have "entry_id e \<le> timestamp (last (history s))" .
    ultimately show "entry_id e < ni" using assms(2) by linarith
  qed
  with f show ?thesis by simp
qed

lemma debounced_is_dropped:
  assumes "history render \<noteq> []"
    and "ng < timestamp (last (history render)) + 5000"
  shows "addResult render cur res ng ni nt = None"
  using assms by (simp add: addResult_def)

lemma manual_debounced_is_dropped:
  assumes "history s \<noteq> []" and "ng < timestamp (last (history s)) + 5000"
  shows "addOutcome s res ng ni nt = Inr s"
  using debounced_is_dropped [OF assms] by (simp add: addOutcome_def)

lemma first_outcome_of_render:
  assumes "history render = []"
  shows "\<exists>s'. addResult render cur res ng ni nt = Some s'
            \<and> history s' = [\<lparr>entry_id = ni, result = res, timestamp = nt\<rparr>]"
  using assms by (auto simp: addResult_def Let_def)

lemma decision_rule_of_render:
  assumes "leftHalf \<noteq> []" and "rightHalf \<noteq> []"
  shows "let leftBlue = dominanceFraction Blue leftHalf;
             rightPurple = dominanceFraction Purple rightHalf;
             threshold = sensitivity render / 100;
             d = detect (analyzeColorDominance leftHalf Blue)
                   (analyzeColorDominance rightHalf Purple) (Some threshold)
         in (d = Some Alpha \<longleftrightarrow> leftBlue > rightPurple \<and> leftBlue > threshold)
          \<and> (d = Some Omega \<longleftrightarrow>
               \<not> (leftBlue > rightPurple \<and> leftBlue > threshold)
               \<and> rightPurple > leftBlue \<and> rightPurple > threshold)
          \<and> (leftBlue = rightPurple \<longrightarrow> d = None)
          \<and> (captureArea render \<noteq> None \<longrightarrow>
               analyzeScreen render cur (Some (leftHalf, rightHalf)) nd ng ni nt =
                 (case d of
                    Some res \<Rightarrow>
                      (case addResult render (cur\<lparr>lastDetected := Some (res, nd)\<rparr>) res ng ni nt of
                         None \<Rightarrow> Inr (cur\<lparr>lastDetected := Some (res, nd)\<rparr>)
                       | Some cur2 \<Rightarrow> historyEffect cur2)
                  | None \<Rightarrow> Inr cur))
          \<and> ((\<forall>p \<in> set leftHalf. matches_color Blue p)
               \<and> (\<forall>p \<in> set rightHalf. \<not> matches_color Purple p)
               \<and> sensitivity render = 30 \<longrightarrow> d = Some Alpha)"
proof -
  note l = analyzeColorDominance_fraction [OF assms(1), of Blue]
  note r = analyzeColorDominance_fraction [OF assms(2), of Purple]
  have part: "(\<forall>p \<in> set leftHalf. matches_color Blue p)
               \<and> (\<forall>p \<in> set rightHalf. \<not> matches_color Purple p)
               \<and> sensitivity render = 30 \<longrightarrow>
             detect (Some (dominanceFraction Blue leftHalf))
               (Some (dominanceFraction Purple rightHalf)) (Some (sensitivity render / 100))
             = Some Alpha"
    using dominanceFraction_all [OF assms(1), of Blue] dominanceFraction_none [of rightHalf Purple]
    by (auto simp: detect_def js_gt_def)
  have tick: "captureArea render \<noteq> None \<longrightarrow>
      analyzeScreen render cur (Some (leftHalf, rightHalf)) nd ng ni nt =
        (case detect (Some (dominanceFraction Blue leftHalf))
                (Some (dominanceFraction Purple rightHalf)) (Some (sensitivity render / 100)) of
           Some res \<Rightarrow>
             (case addResult render (cur\<lparr>lastDetected := Some (res, nd)\<rparr>) res ng ni nt of
                None \<Rightarrow> Inr (cur\<lparr>lastDetected := Some (res, nd)\<rparr>)
              | Some cur2 \<Rightarrow> historyEffect cur2)
         | None \<Rightarrow> Inr cur)"
    by (auto simp: analyzeScreen_def Let_def l r split: option.splits)
  show ?thesis
    unfolding Let_def l r
    apply (intro conjI)
        apply (simp add: detect_def js_gt_def)
       apply (simp add: detect_def js_gt_def)
      apply (simp add: detect_def js_gt_def)
     apply (rule tick)
    apply (rule part)
    done
qed

subsection \<open>Evaluation of concrete runs\<close>

lemmas eval_defs =
  initialComponent_def initialState_def initialMethods_def newMethod_def
  startScreenCapture_def openSettings_def closeSettings_def setSensitivity_def
  confirmSelection_def handleAreaSelect_def stopMonitoring_def
  dialogShown_def selectionAccepted_def monitoringEffect_def
  analyzeScreen_def analyzeColorDominance_def matches_color_def detect_def js_gt_def
  addResult_def addOutcome_def clearAll_def clearHistory_def
  historyEffect_def makePrediction_def bestMethodObj_def scoreMethod_def Let_def

section \<open>Verified claims\<close>

text \<open>
  C1, as the specification states it, fails: after one outcome the stored best-method
  name is the first method's, and \<open>clearAll\<close> replaces it by the empty string.
\<close>

theorem clearAll_best_name_counterexample:
  "case addOutcome initialState Alpha 1000 1000 1001 of
     Inl e \<Rightarrow> False
   | Inr s \<Rightarrow>
       reachable \<lparr>current = s, intervalRender = None\<rparr> \<and> bestMethod s = name_frequency
       \<and> (case clearAll s of
             Inl e \<Rightarrow> False
           | Inr s' \<Rightarrow>
               bestMethod s' = [] \<and> name (hd (methods s')) = name_frequency
               \<and> bestMethod s' \<noteq> name (hd (methods s')))"
proof -
  have m0: "methods initialState \<noteq> []" by (simp add: initialState_def initialMethods_def)
  then obtain s where s: "addOutcome initialState Alpha 1000 1000 1001 = Inr s"
    using addOutcome_total by blast
  have "step initialComponent (ClickResult Alpha 1000 1000 1001)
          = Inr \<lparr>current = s, intervalRender = None\<rparr>"
    using s by (simp add: initialComponent_def initialState_def)
  from reach_step [OF reach_init this]
  have r: "reachable \<lparr>current = s, intervalRender = None\<rparr>" .
  have b: "bestMethod s = name_frequency"
    using s
    by (auto simp: addOutcome_def addResult_def historyEffect_def makePrediction_def
        bestMethodObj_def initialState_def initialMethods_def newMethod_def Let_def)
  from reachable_component_ok [OF r] have "ensemble_ok s" by (simp add: component_ok_def)
  then have "name (hd (methods s)) = name_frequency"
    using ensemble_ok_first_name by blast
  then have "name (hd (methods (clearHistory s))) = name_frequency"
    by (cases "methods s") (simp_all add: clearHistory_def)
  moreover have "bestMethod (clearHistory s) = []" by (simp add: clearHistory_def)
  moreover have "name_frequency \<noteq> []" by (simp add: name_frequency_def)
  ultimately show ?thesis using s r b by (simp add: clearAll_eq)
qed

text \<open>
  C1, amended. After \<open>clearAll\<close> on a reachable state the history is empty, every method's
  counters and accuracy are zero, no prediction is current and the stored best-method name
  is the empty string. The selection applied to the cleared methods returns the first
  declared method, at accuracy 0.
\<close>

theorem clearAll_resets:
  assumes "reachable c"
  shows "\<exists>s'. clearAll (current c) = Inr s'
           \<and> history s' = []
           \<and> (\<forall>m \<in> set (methods s'). predictions m = 0 \<and> correct m = 0 \<and> accuracy m = 0)
           \<and> currentPrediction s' = None
           \<and> bestMethod s' = []
           \<and> bestMethodObj (methods s') = Inr (hd (methods s'))
           \<and> name (hd (methods s')) = name_frequency
           \<and> accuracy (hd (methods s')) = 0"
proof -
  let ?c = "clearHistory (current c)"
  from reachable_component_ok [OF assms] have "ensemble_ok (current c)"
    by (simp add: component_ok_def)
  then have okc: "ensemble_ok ?c" by (rule clearHistory_ensemble_ok)
  from ensemble_ok_first_name [OF okc] have ne: "methods ?c \<noteq> []"
    and fn: "name (hd (methods ?c)) = name_frequency" by simp_all
  have z: "\<forall>m \<in> set (methods ?c). predictions m = 0 \<and> correct m = 0 \<and> accuracy m = 0"
    by (auto simp: clearHistory_def)
  then have za: "\<forall>m \<in> set (methods ?c). accuracy m = 0" by simp
  from bestMethodObj_all_zero [OF ne za]
  have best: "bestMethodObj (methods ?c) = Inr (hd (methods ?c))" .
  from ne za have a0: "accuracy (hd (methods ?c)) = 0" by (cases "methods ?c") auto
  have "history ?c = []" "currentPrediction ?c = None" "bestMethod ?c = []"
    by (simp_all add: clearHistory_def)
  with z best fn a0 show ?thesis by (simp only: clearAll_eq) blast
qed

theorem clearAll_resets_witness:
  "\<exists>s s'. addOutcome initialState Alpha 1000 1000 1001 = Inr s
      \<and> reachable \<lparr>current = s, intervalRender = None\<rparr>
      \<and> history s \<noteq> []
      \<and> clearAll s = Inr s'
      \<and> history s' = []
      \<and> list_all (\<lambda>m. predictions m = 0 \<and> correct m = 0 \<and> accuracy m = 0) (methods s')
      \<and> currentPrediction s' = None
      \<and> bestMethod s' = []
      \<and> bestMethodObj (methods s') = Inr (hd (methods s'))
      \<and> name (hd (methods s')) = name_frequency"
proof -
  have m0: "methods initialState \<noteq> []" by (simp add: initialState_def initialMethods_def)
  then obtain s where s: "addOutcome initialState Alpha 1000 1000 1001 = Inr s"
    using addOutcome_total by blast
  have "step initialComponent (ClickResult Alpha 1000 1000 1001)
          = Inr \<lparr>current = s, intervalRender = None\<rparr>"
    using s by (simp add: initialComponent_def initialState_def)
  from reach_step [OF reach_init this]
  have r: "reachable \<lparr>current = s, intervalRender = None\<rparr>" .
  have h: "history s \<noteq> []"
    using addOutcome_history [OF s] by (simp add: addResult_def initialState_def)
  from clearAll_resets [OF r] obtain s' where
    "clearAll s = Inr s'" "history s' = []"
    "\<forall>m \<in> set (methods s'). predictions m = 0 \<and> correct m = 0 \<and> accuracy m = 0"
    "currentPrediction s' = None" "bestMethod s' = []"
    "bestMethodObj (methods s') = Inr (hd (methods s'))"
    "name (hd (methods s')) = name_frequency"
    by auto
  with s r h show ?thesis by (auto simp: list_all_iff)
qed

text \<open>
  C2 holds for outcomes dispatched by clicks (\<open>manual_counters_after_appends\<close>) and fails
  for those the interval dispatches. Monitoring starts on the empty state and the interval
  fires three times, 30 s apart, each time on an all-blue left half: all three outcomes
  are accepted, yet the history holds only the last one and every method's prediction
  count is 0, where the claim gives \<open>3 - 1\<close>. The callback of the interval keeps the empty
  history and the null prediction of the render in which monitoring began.
\<close>

theorem interval_outcomes_unscored:
  "case run initialComponent
          [ClickStartCapture (Some (MediaStream 1)),
           ClickOpenSettings,
           ClickConfirmSelection (Some (CaptureArea 0 0 200 100)),
           IntervalFires (Some ([Pixel 100 220 230 255], [Pixel 10 10 10 255]))
             30000 30000 30000 30000,
           IntervalFires (Some ([Pixel 100 220 230 255], [Pixel 10 10 10 255]))
             60000 60000 60000 60000,
           IntervalFires (Some ([Pixel 100 220 230 255], [Pixel 10 10 10 255]))
             90000 90000 90000 90000] of
     Inl e \<Rightarrow> False
   | Inr c \<Rightarrow>
       toasts (current c) =
         [ToastCaptureActive, ToastMonitoringStarted,
          ToastResultAdded Alpha, ToastResultAdded Alpha, ToastResultAdded Alpha]
       \<and> map entry_id (history (current c)) = [90000]
       \<and> map predictions (methods (current c)) = [0, 0, 0, 0]"
  by (simp add: eval_defs)

text \<open>
  C3 holds for clicks (\<open>manual_debounced_is_dropped\<close>) and fails for the interval. The
  first tick records an outcome with timestamp 30000; a second tick whose guard reads the
  clock at 31000, inside the window of 5000 ms, is not dropped: its guard reads the empty
  history of the render in which monitoring began, so the outcome replaces the entry and
  a second notification is raised.
\<close>

theorem interval_outcome_inside_window:
  "(case run initialComponent
          [ClickStartCapture (Some (MediaStream 1)),
           ClickOpenSettings,
           ClickConfirmSelection (Some (CaptureArea 0 0 200 100)),
           IntervalFires (Some ([Pixel 100 220 230 255], [Pixel 10 10 10 255]))
             30000 30000 30000 30000] of
      Inl e \<Rightarrow> False
    | Inr c \<Rightarrow>
        map timestamp (history (current c)) = [30000]
        \<and> toasts (current c) =
            [ToastCaptureActive, ToastMonitoringStarted, ToastResultAdded Alpha])
   \<and> (31000 :: int) < 30000 + 5000
   \<and> (case run initialComponent
          [ClickStartCapture (Some (MediaStream 1)),
           ClickOpenSettings,
           ClickConfirmSelection (Some (CaptureArea 0 0 200 100)),
           IntervalFires (Some ([Pixel 100 220 230 255], [Pixel 10 10 10 255]))
             30000 30000 30000 30000,
           IntervalFires (Some ([Pixel 10 10 10 255], [Pixel 200 50 180 255]))
             31000 31000 31000 31000] of
      Inl e \<Rightarrow> False
    | Inr c \<Rightarrow>
        map timestamp (history (current c)) = [31000]
        \<and> map result (history (current c)) = [Omega]
        \<and> toasts (current c) =
            [ToastCaptureActive, ToastMonitoringStarted,
             ToastResultAdded Alpha, ToastResultAdded Omega])"
  by (simp add: eval_defs)

text \<open>
  C4 gives the decision of a tick from the sensitivity of the render it belongs to
  (\<open>decision_rule_of_render\<close>), which need not be the current setting. Monitoring starts at
  sensitivity 30, the slider is then moved to 50 and the dialog closed. A tick on a left
  half whose blue fraction is \<open>2 / 5\<close>, against no purple on the right, detects \<open>Alpha\<close>,
  where the rule with the threshold \<open>50 / 100\<close> detects nothing.
\<close>

theorem interval_threshold_is_stale:
  "dominanceFraction Blue
      [Pixel 100 220 230 255, Pixel 100 220 230 255,
       Pixel 10 10 10 255, Pixel 10 10 10 255, Pixel 10 10 10 255] = 2 / 5
   \<and> dominanceFraction Purple [Pixel 10 10 10 255] = 0
   \<and> detect (Some (2 / 5)) (Some 0) (Some (50 / 100)) = None
   \<and> (case run initialComponent
          [ClickStartCapture (Some (MediaStream 1)),
           ClickOpenSettings,
           ClickConfirmSelection (Some (CaptureArea 0 0 200 100)),
           ClickOpenSettings,
           MoveSlider 50,
           ClickCloseSettings] of
      Inl e \<Rightarrow> False
    | Inr c \<Rightarrow>
        sensitivity (current c) = 50 \<and> isMonitoring (current c)
        \<and> history (current c) = [] \<and> lastDetected (current c) = None)
   \<and> (case run initialComponent
          [ClickStartCapture (Some (MediaStream 1)),
           ClickOpenSettings,
           ClickConfirmSelection (Some (CaptureArea 0 0 200 100)),
           ClickOpenSettings,
           MoveSlider 50,
           ClickCloseSettings,
           IntervalFires
             (Some ([Pixel 100 220 230 255, Pixel 100 220 230 255,
                     Pixel 10 10 10 255, Pixel 10 10 10 255, Pixel 10 10 10 255],
                    [Pixel 10 10 10 255]))
             30000 30000 30000 30000] of
      Inl e \<Rightarrow> False
    | Inr c \<Rightarrow>
        sensitivity (current c) = 50
        \<and> lastDetected (current c) = Some (Alpha, 30000)
        \<and> map result (history (current c)) = [Alpha])"
  by (simp add: eval_defs dominanceFraction_def)

text \<open>
  C5. The frequency predictor answers \<open>Alpha\<close> exactly when the prefix holds strictly more
  \<open>Alpha\<close> than \<open>Omega\<close> entries and \<open>Omega\<close> otherwise; on equal counts, and on the empty
  prefix, it answers \<open>Omega\<close>.
\<close>

theorem predict_frequency_majority:
  "(predict_frequency hist = Alpha \<longleftrightarrow>
      count_list (map result hist) Omega < count_list (map result hist) Alpha)
   \<and> (predict_frequency hist = Omega \<longleftrightarrow>
      count_list (map result hist) Alpha \<le> count_list (map result hist) Omega)
   \<and> (count_list (map result hist) Alpha = count_list (map result hist) Omega
        \<longrightarrow> predict_frequency hist = Omega)
   \<and> predict_frequency [] = Omega"
  by (simp add: predict_frequency_def length_filter_result)

theorem predict_frequency_majority_witness:
  "count_list (map result
      [\<lparr>entry_id = 1, result = Alpha, timestamp = 1\<rparr>,
       \<lparr>entry_id = 6000, result = Omega, timestamp = 6000\<rparr>]) Alpha
   = count_list (map result
      [\<lparr>entry_id = 1, result = Alpha, timestamp = 1\<rparr>,
       \<lparr>entry_id = 6000, result = Omega, timestamp = 6000\<rparr>]) Omega
   \<and> predict_frequency
      [\<lparr>entry_id = 1, result = Alpha, timestamp = 1\<rparr>,
       \<lparr>entry_id = 6000, result = Omega, timestamp = 6000\<rparr>] = Omega"
  using predict_frequency_majority
    [of "[\<lparr>entry_id = 1, result = Alpha, timestamp = 1\<rparr>,
          \<lparr>entry_id = 6000, result = Omega, timestamp = 6000\<rparr>]"]
  by simp

text \<open>
  C6. The transition model answers \<open>Alpha\<close> on a prefix shorter than 2. On a longer prefix
  whose last outcome is \<open>s\<close>, it answers the other outcome when the transitions from \<open>s\<close> to
  it are strictly more than those from \<open>s\<close> to \<open>s\<close>, and \<open>s\<close> otherwise, so \<open>s\<close> on a tie.
\<close>

theorem transition_model:
  "(length hist < 2 \<longrightarrow> predict_probability hist = Alpha)
   \<and> (length hist \<ge> 2 \<longrightarrow>
        (let s = result (last hist);
             stay = transitionCount s s hist;
             switch = transitionCount s (opposite s) hist
         in predict_probability hist = (if switch > stay then opposite s else s)))"
proof -
  have "predict_probability hist =
      (if transitionCount (result (last hist)) (opposite (result (last hist))) hist
            > transitionCount (result (last hist)) (result (last hist)) hist
       then opposite (result (last hist)) else result (last hist))"
    if len: "length hist \<ge> 2"
  proof -
    from len have ne: "hist \<noteq> []" by auto
    then have lst: "hist ! (length hist - 1) = last hist" by (simp add: last_conv_nth)
    note c = transitions_loop_counts
      [of hist 0 "\<lparr>alphaAlpha = 0, alphaOmega = 0, omegaAlpha = 0, omegaOmega = 0\<rparr>"]
    from len have nl: "\<not> length hist < 2" by simp
    show ?thesis
      unfolding predict_probability_def Let_def lst
      using c nl by (cases "result (last hist)") (simp_all add: opposite_def)
  qed
  then show ?thesis by (simp add: predict_probability_def Let_def)
qed

theorem transition_model_witness:
  "length [\<lparr>entry_id = 0, result = Alpha, timestamp = 0\<rparr>] < 2
   \<and> predict_probability [\<lparr>entry_id = 0, result = Alpha, timestamp = 0\<rparr>] = Alpha
   \<and> length [\<lparr>entry_id = 0, result = Alpha, timestamp = 0\<rparr>,
              \<lparr>entry_id = 5000, result = Omega, timestamp = 5000\<rparr>,
              \<lparr>entry_id = 10000, result = Omega, timestamp = 10000\<rparr>,
              \<lparr>entry_id = 15000, result = Alpha, timestamp = 15000\<rparr>,
              \<lparr>entry_id = 20000, result = Omega, timestamp = 20000\<rparr>] \<ge> 2
   \<and> predict_probability
             [\<lparr>entry_id = 0, result = Alpha, timestamp = 0\<rparr>,
              \<lparr>entry_id = 5000, result = Omega, timestamp = 5000\<rparr>,
              \<lparr>entry_id = 10000, result = Omega, timestamp = 10000\<rparr>,
              \<lparr>entry_id = 15000, result = Alpha, timestamp = 15000\<rparr>,
              \<lparr>entry_id = 20000, result = Omega, timestamp = 20000\<rparr>] = Omega"
  using transition_model [of "[\<lparr>entry_id = 0, result = Alpha, timestamp = 0\<rparr>]"]
    transition_model [of "[\<lparr>entry_id = 0, result = Alpha, timestamp = 0\<rparr>,
              \<lparr>entry_id = 5000, result = Omega, timestamp = 5000\<rparr>,
              \<lparr>entry_id = 10000, result = Omega, timestamp = 10000\<rparr>,
              \<lparr>entry_id = 15000, result = Alpha, timestamp = 15000\<rparr>,
              \<lparr>entry_id = 20000, result = Omega, timestamp = 20000\<rparr>]"]
  by (simp add: transitionCount_def opposite_def Let_def)

text \<open>
  C7. On a non-empty ensemble the selection returns the method at the earliest position
  that holds the maximum accuracy, and \<open>makePrediction\<close> stores that method's name.
\<close>

theorem best_method_selection:
  assumes "ms \<noteq> []" and "methods s = ms"
  shows "\<exists>i. first_max ms i \<and> bestMethodObj ms = Inr (ms ! i)
           \<and> (\<exists>s'. makePrediction s = Inr s' \<and> bestMethod s' = name (ms ! i))"
proof -
  let ?ums = "map (\<lambda>method. method\<lparr>lastPrediction := Some (predict method (history s))\<rparr>) ms"
  from assms(1) have "?ums \<noteq> []" by simp
  from bestMethodObj_first_max [OF this] obtain i
    where i: "first_max ?ums i" and b: "bestMethodObj ?ums = Inr (?ums ! i)" by blast
  from i have fm: "first_max ms i" by (simp only: first_max_map_lastPrediction)
  then have il: "i < length ms" by (simp add: first_max_def)
  from bestMethodObj_first_max [OF assms(1)] obtain k
    where k: "first_max ms k" and bk: "bestMethodObj ms = Inr (ms ! k)" by blast
  have "k = i"
  proof (rule ccontr)
    assume "k \<noteq> i"
    then have "k < i \<or> i < k" by auto
    then show False
    proof
      assume "k < i"
      with fm have "accuracy (ms ! k) < accuracy (ms ! i)" by (simp add: first_max_def)
      moreover from k il have "accuracy (ms ! i) \<le> accuracy (ms ! k)" by (simp add: first_max_def)
      ultimately show False by simp
    next
      assume "i < k"
      with k have "accuracy (ms ! i) < accuracy (ms ! k)" by (simp add: first_max_def)
      moreover from fm k have "accuracy (ms ! k) \<le> accuracy (ms ! i)" by (simp add: first_max_def)
      ultimately show False by simp
    qed
  qed
  with bk have b0: "bestMethodObj ms = Inr (ms ! i)" by simp
  from b il assms(2) have "\<exists>s'. makePrediction s = Inr s' \<and> bestMethod s' = name (ms ! i)"
    by (simp add: makePrediction_def Let_def)
  with fm b0 show ?thesis by blast
qed

theorem best_method_selection_witness:
  "[(newMethod name_frequency predict_frequency)\<lparr>accuracy := 50\<rparr>,
    (newMethod name_last5 predict_last5)\<lparr>accuracy := 75\<rparr>,
    (newMethod name_pattern predict_pattern)\<lparr>accuracy := 75\<rparr>] \<noteq> []
   \<and> (\<exists>i. first_max
          [(newMethod name_frequency predict_frequency)\<lparr>accuracy := 50\<rparr>,
           (newMethod name_last5 predict_last5)\<lparr>accuracy := 75\<rparr>,
           (newMethod name_pattern predict_pattern)\<lparr>accuracy := 75\<rparr>] i
        \<and> bestMethodObj
          [(newMethod name_frequency predict_frequency)\<lparr>accuracy := 50\<rparr>,
           (newMethod name_last5 predict_last5)\<lparr>accuracy := 75\<rparr>,
           (newMethod name_pattern predict_pattern)\<lparr>accuracy := 75\<rparr>]
            = Inr ((newMethod name_last5 predict_last5)\<lparr>accuracy := 75\<rparr>)
        \<and> (\<exists>s'. makePrediction (initialState\<lparr>methods :=
             [(newMethod name_frequency predict_frequency)\<lparr>accuracy := 50\<rparr>,
              (newMethod name_last5 predict_last5)\<lparr>accuracy := 75\<rparr>,
              (newMethod name_pattern predict_pattern)\<lparr>accuracy := 75\<rparr>]\<rparr>) = Inr s'
              \<and> bestMethod s' = name_last5))"
proof -
  let ?ms = "[(newMethod name_frequency predict_frequency)\<lparr>accuracy := 50\<rparr>,
    (newMethod name_last5 predict_last5)\<lparr>accuracy := 75\<rparr>,
    (newMethod name_pattern predict_pattern)\<lparr>accuracy := 75\<rparr>]"
  let ?s = "initialState\<lparr>methods := ?ms\<rparr>"
  have a: "?ms \<noteq> []" by simp
  have b: "methods ?s = ?ms" by simp
  have c: "bestMethodObj ?ms = Inr ((newMethod name_last5 predict_last5)\<lparr>accuracy := 75\<rparr>)"
    by (simp add: bestMethodObj_def newMethod_def)
  from best_method_selection [OF a b] obtain i s' where
    fm: "first_max ?ms i" and bi: "bestMethodObj ?ms = Inr (?ms ! i)"
    and mp: "makePrediction ?s = Inr s'" "bestMethod s' = name (?ms ! i)"
    by blast
  from bi c have "?ms ! i = (newMethod name_last5 predict_last5)\<lparr>accuracy := 75\<rparr>"
    by simp
  then have "name (?ms ! i) = name_last5" by (simp add: newMethod_def)
  with mp have "\<exists>s'. makePrediction ?s = Inr s' \<and> bestMethod s' = name_last5" by simp
  with fm c a show ?thesis by blast
qed

text \<open>
  C8 holds for clicks (\<open>manual_append_extends_history\<close>) and fails for the interval. After
  the first tick the history holds the entry with identifier 30000; the second accepted
  tick leaves a history of length 1 holding only the entry 60000: the earlier entry is
  deleted and the length has not grown.
\<close>

theorem interval_append_replaces_entry:
  "(case run initialComponent
          [ClickStartCapture (Some (MediaStream 1)),
           ClickOpenSettings,
           ClickConfirmSelection (Some (CaptureArea 0 0 200 100)),
           IntervalFires (Some ([Pixel 100 220 230 255], [Pixel 10 10 10 255]))
             30000 30000 30000 30000] of
      Inl e \<Rightarrow> False
    | Inr c \<Rightarrow> map entry_id (history (current c)) = [30000])
   \<and> (case run initialComponent
          [ClickStartCapture (Some (MediaStream 1)),
           ClickOpenSettings,
           ClickConfirmSelection (Some (CaptureArea 0 0 200 100)),
           IntervalFires (Some ([Pixel 100 220 230 255], [Pixel 10 10 10 255]))
             30000 30000 30000 30000,
           IntervalFires (Some ([Pixel 100 220 230 255], [Pixel 10 10 10 255]))
             60000 60000 60000 60000] of
      Inl e \<Rightarrow> False
    | Inr c \<Rightarrow>
        toasts (current c) =
          [ToastCaptureActive, ToastMonitoringStarted,
           ToastResultAdded Alpha, ToastResultAdded Alpha]
        \<and> map entry_id (history (current c)) = [60000]
        \<and> length (history (current c)) = 1)"
  by (simp add: eval_defs)

text \<open>
  C9 holds when the handler's own render has an empty history
  (\<open>first_outcome_of_render\<close>) and fails after a clear during monitoring. One outcome is
  recorded at 1001, monitoring starts, the history is cleared. A tick whose guard reads
  3000 is dropped, the guard comparing with the cleared entry; a tick at 31000 is
  accepted, and the history is then the cleared entry followed by the new one.
\<close>

theorem interval_outcome_after_clear:
  "(case run initialComponent
          [ClickResult Alpha 1000 1000 1001,
           ClickStartCapture (Some (MediaStream 1)),
           ClickOpenSettings,
           ClickConfirmSelection (Some (CaptureArea 0 0 200 100)),
           ClickClear] of
      Inl e \<Rightarrow> False
    | Inr c \<Rightarrow> history (current c) = [] \<and> isMonitoring (current c))
   \<and> (case run initialComponent
          [ClickResult Alpha 1000 1000 1001,
           ClickStartCapture (Some (MediaStream 1)),
           ClickOpenSettings,
           ClickConfirmSelection (Some (CaptureArea 0 0 200 100)),
           ClickClear,
           IntervalFires (Some ([Pixel 10 10 10 255], [Pixel 200 50 180 255]))
             3000 3000 3000 3000] of
      Inl e \<Rightarrow> False
    | Inr c \<Rightarrow>
        history (current c) = []
        \<and> lastDetected (current c) = Some (Omega, 3000)
        \<and> toasts (current c) =
            [ToastResultAdded Alpha, ToastCaptureActive, ToastMonitoringStarted])
   \<and> (case run initialComponent
          [ClickResult Alpha 1000 1000 1001,
           ClickStartCapture (Some (MediaStream 1)),
           ClickOpenSettings,
           ClickConfirmSelection (Some (CaptureArea 0 0 200 100)),
           ClickClear,
           IntervalFires (Some ([Pixel 10 10 10 255], [Pixel 200 50 180 255]))
             31000 31000 31000 31000] of
      Inl e \<Rightarrow> False
    | Inr c \<Rightarrow>
        history (current c) =
          [\<lparr>entry_id = 1000, result = Alpha, timestamp = 1001\<rparr>,
           \<lparr>entry_id = 31000, result = Omega, timestamp = 31000\<rparr>])"
  by (simp add: eval_defs)

text \<open>
  C10. \<open>clearAll\<close> is \<open>clearHistory\<close> with no prediction run after it, and \<open>clearHistory\<close>
  leaves the monitoring flag, the capture area, the stream, the stopped streams, the
  sensitivity and every other cell but the history, the prediction, the best-method name
  and the methods as they were; of each method it keeps the name, the strategy and the
  last prediction.
\<close>

theorem clearAll_frame:
  "clearAll s = Inr (clearHistory s)
   \<and> isMonitoring (clearHistory s) = isMonitoring s
   \<and> captureArea (clearHistory s) = captureArea s
   \<and> streamRef (clearHistory s) = streamRef s
   \<and> stoppedStreams (clearHistory s) = stoppedStreams s
   \<and> sensitivity (clearHistory s) = sensitivity s
   \<and> isCapturing (clearHistory s) = isCapturing s
   \<and> showSettings (clearHistory s) = showSettings s
   \<and> lastDetected (clearHistory s) = lastDetected s
   \<and> toasts (clearHistory s) = toasts s
   \<and> map name (methods (clearHistory s)) = map name (methods s)
   \<and> map predict (methods (clearHistory s)) = map predict (methods s)
   \<and> map lastPrediction (methods (clearHistory s)) = map lastPrediction (methods s)"
  by (simp add: clearAll_eq) (simp add: clearHistory_def comp_def)

end
